theory Spec2Isabelle
  imports Main "HOL-Library.Word"
begin

section \<open>Instruction set and the two surface encodings\<close>

text \<open>
  Source bytes of a program are modelled as \<^typ>\<open>char\<close> (an 8-bit value), data
  cells as \<^typ>\<open>8 word\<close> (\<^verbatim>\<open>uint8_t\<close>) and the data pointer as
  \<^typ>\<open>64 word\<close> (\<^verbatim>\<open>size_t\<close> on the LP64 platforms the POSIX
  \<^verbatim>\<open>mmap\<close> interface of the tools targets).
\<close>

type_synonym u8 = "8 word"
type_synonym size_t = "64 word"

text \<open>\<^verbatim>\<open>typedef uint8_t ichiglyph_opcode_t[2]\<close>\<close>

type_synonym ichiglyph_opcode_t = "char \<times> char"

datatype instruction_t =
    INST_DP_INC
  | INST_DP_DEC
  | INST_VAL_INC
  | INST_VAL_DEC
  | INST_VAL_OUTPUT
  | INST_VAL_ACCEPT
  | INST_JMP_FORWARD
  | INST_JMP_BACK
  | INST_NOP

text \<open>\<^verbatim>\<open>opcode_decode\<close> of the Brainfuck interpreter (\<^verbatim>\<open>brainfuck_opcode_decode\<close> in bf2ig).\<close>

definition brainfuck_opcode_decode :: "char \<Rightarrow> instruction_t" where
  "brainfuck_opcode_decode opcode =
     (if opcode = CHR ''>'' then INST_DP_INC
      else if opcode = CHR ''<'' then INST_DP_DEC
      else if opcode = CHR ''+'' then INST_VAL_INC
      else if opcode = CHR ''-'' then INST_VAL_DEC
      else if opcode = CHR ''.'' then INST_VAL_OUTPUT
      else if opcode = CHR '','' then INST_VAL_ACCEPT
      else if opcode = CHR ''['' then INST_JMP_FORWARD
      else if opcode = CHR '']'' then INST_JMP_BACK
      else INST_NOP)"

text \<open>\<^verbatim>\<open>opcode_decode\<close> of the Ichiglyph interpreter (\<^verbatim>\<open>ichiglyph_opcode_decode\<close> in ig2bf).\<close>

definition ichiglyph_opcode_decode :: "ichiglyph_opcode_t \<Rightarrow> instruction_t" where
  "ichiglyph_opcode_decode opcode =
     (if fst opcode = CHR ''l'' then
        (if snd opcode = CHR ''l'' then INST_DP_INC
         else if snd opcode = CHR ''I'' then INST_DP_DEC
         else if snd opcode = CHR ''1'' then INST_JMP_FORWARD
         else INST_NOP)
      else if fst opcode = CHR ''I'' then
        (if snd opcode = CHR ''l'' then INST_VAL_INC
         else if snd opcode = CHR ''I'' then INST_VAL_DEC
         else if snd opcode = CHR ''1'' then INST_JMP_BACK
         else INST_NOP)
      else if fst opcode = CHR ''1'' then
        (if snd opcode = CHR ''l'' then INST_VAL_OUTPUT
         else if snd opcode = CHR ''I'' then INST_VAL_ACCEPT
         else INST_NOP)
      else INST_NOP)"

text \<open>
  The encode switch of ig2bf's main loop: the string written by \<^verbatim>\<open>fputs\<close> for
  one decoded instruction. \<^verbatim>\<open>INST_NOP\<close> writes nothing.
\<close>

fun brainfuck_encode :: "instruction_t \<Rightarrow> string" where
  "brainfuck_encode INST_DP_INC = ''>''"
| "brainfuck_encode INST_DP_DEC = ''<''"
| "brainfuck_encode INST_VAL_INC = ''+''"
| "brainfuck_encode INST_VAL_DEC = ''-''"
| "brainfuck_encode INST_VAL_OUTPUT = ''.''"
| "brainfuck_encode INST_VAL_ACCEPT = '',''"
| "brainfuck_encode INST_JMP_FORWARD = ''[''"
| "brainfuck_encode INST_JMP_BACK = '']''"
| "brainfuck_encode INST_NOP = ''''"

text \<open>The encode switch of bf2ig's main loop.\<close>

fun ichiglyph_encode :: "instruction_t \<Rightarrow> string" where
  "ichiglyph_encode INST_DP_INC = ''ll''"
| "ichiglyph_encode INST_DP_DEC = ''lI''"
| "ichiglyph_encode INST_VAL_INC = ''Il''"
| "ichiglyph_encode INST_VAL_DEC = ''II''"
| "ichiglyph_encode INST_VAL_OUTPUT = ''1l''"
| "ichiglyph_encode INST_VAL_ACCEPT = ''1I''"
| "ichiglyph_encode INST_JMP_FORWARD = ''l1''"
| "ichiglyph_encode INST_JMP_BACK = ''I1''"
| "ichiglyph_encode INST_NOP = ''''"

text \<open>
  A source file as the tools see it: the Brainfuck tools take every byte as one opcode
  unit; the Ichiglyph tools take \<^verbatim>\<open>st_size / sizeof(ichiglyph_opcode_t)\<close> units
  of two bytes, so a dangling last byte is not part of the program.
\<close>

definition brainfuck_program :: "string \<Rightarrow> char list" where
  "brainfuck_program src = src"

fun ichiglyph_program :: "string \<Rightarrow> ichiglyph_opcode_t list" where
  "ichiglyph_program (a # b # src) = (a, b) # ichiglyph_program src"
| "ichiglyph_program src = []"

section \<open>Data memory\<close>

text \<open>
  Results of operations that C leaves to the caller or to the platform:
  \<^item> \<open>OutOfMemory\<close>: \<^verbatim>\<open>realloc\<close> returned \<^verbatim>\<open>NULL\<close> and the data
    operation returns a non-zero value;
  \<^item> \<open>DataOutOfBounds\<close>: an access outside the block that \<^verbatim>\<open>data->data\<close>
    points to;
  \<^item> \<open>FetchOutOfBounds\<close>: a read of \<^verbatim>\<open>program[i]\<close> with
    \<^verbatim>\<open>i > program_size\<close> (the engine never does one; the read at
    \<^verbatim>\<open>i = program_size\<close> is modelled below).

  The model stops a run at the first of the two accesses out of bounds and says
  nothing about what the process does afterwards.
\<close>

datatype fault = OutOfMemory | DataOutOfBounds | FetchOutOfBounds

definition DATA_GRANULARITY :: size_t where
  "DATA_GRANULARITY = 32768"

text \<open>
  \<^verbatim>\<open>data_t\<close>: the allocated block (a list as long as the block) and the
  \<^verbatim>\<open>size\<close> field, \<open>dsize\<close> here.
\<close>

record data_t =
  data :: "u8 list"
  dsize :: size_t

definition data_init :: data_t where
  "data_init = \<lparr>data = [], dsize = 0\<rparr>"

text \<open>The block is as long as the \<^verbatim>\<open>size\<close> field says.\<close>

definition data_ok :: "data_t \<Rightarrow> bool" where
  "data_ok d = (length (data d) = unat (dsize d))"

text \<open>
  \<^verbatim>\<open>data_bound\<close>. The parameter \<open>realloc_ok\<close> tells for which requested sizes
  \<^verbatim>\<open>realloc\<close> returns a block. The new size is computed in \<^verbatim>\<open>size_t\<close>
  and wraps around; when it is smaller than the old size, the length
  \<^verbatim>\<open>size - data->size\<close> given to \<^verbatim>\<open>memset\<close> wraps around as well and
  the fill runs over the end of the block.
\<close>

definition data_bound :: "(size_t \<Rightarrow> bool) \<Rightarrow> data_t \<Rightarrow> size_t \<Rightarrow> fault + data_t" where
  "data_bound realloc_ok d p =
     (if p \<ge> dsize d then
        (let sz = p + 1 + DATA_GRANULARITY in
         if \<not> realloc_ok sz then Inl OutOfMemory
         else if sz < dsize d then Inl DataOutOfBounds
         else Inr \<lparr>data = data d @ replicate (unat (sz - dsize d)) 0, dsize = sz\<rparr>)
      else Inr d)"

text \<open>
  The access to \<^verbatim>\<open>data->data[dp]\<close> in \<^verbatim>\<open>data_inc\<close> (\<^verbatim>\<open>++\<close>),
  \<^verbatim>\<open>data_dec\<close> (\<^verbatim>\<open>--\<close>) and \<^verbatim>\<open>data_set\<close> (\<^verbatim>\<open>= val\<close>).
\<close>

definition data_store :: "data_t \<Rightarrow> size_t \<Rightarrow> (u8 \<Rightarrow> u8) \<Rightarrow> fault + data_t" where
  "data_store d p f =
     (if unat p < length (data d)
      then Inr (d\<lparr>data := (data d)[unat p := f (data d ! unat p)]\<rparr>)
      else Inl DataOutOfBounds)"

definition data_inc :: "(size_t \<Rightarrow> bool) \<Rightarrow> data_t \<Rightarrow> size_t \<Rightarrow> fault + data_t" where
  "data_inc realloc_ok d p =
     (case data_bound realloc_ok d p of
        Inl e \<Rightarrow> Inl e
      | Inr d' \<Rightarrow> data_store d' p (\<lambda>v. v + 1))"

definition data_dec :: "(size_t \<Rightarrow> bool) \<Rightarrow> data_t \<Rightarrow> size_t \<Rightarrow> fault + data_t" where
  "data_dec realloc_ok d p =
     (case data_bound realloc_ok d p of
        Inl e \<Rightarrow> Inl e
      | Inr d' \<Rightarrow> data_store d' p (\<lambda>v. v - 1))"

definition data_get :: "data_t \<Rightarrow> size_t \<Rightarrow> u8" where
  "data_get d p = (if p \<ge> dsize d then 0 else data d ! unat p)"

definition data_set :: "(size_t \<Rightarrow> bool) \<Rightarrow> data_t \<Rightarrow> size_t \<Rightarrow> u8 \<Rightarrow> fault + data_t" where
  "data_set realloc_ok d p val =
     (case data_bound realloc_ok d p of
        Inl e \<Rightarrow> Inl e
      | Inr d' \<Rightarrow> data_store d' p (\<lambda>v. val))"

section \<open>The execution engine\<close>

text \<open>
  The state of \<^verbatim>\<open>main\<close>'s loop: the locals \<^verbatim>\<open>ip\<close>, \<^verbatim>\<open>dp\<close> and
  \<^verbatim>\<open>data\<close>, the bytes not yet read from standard input, and the bytes and
  messages written so far to standard output and standard error. The field
  \<open>overread\<close> is not a variable of the code: it records, in order, the indices
  \<^verbatim>\<open>i >= program_size\<close> at which \<^verbatim>\<open>program[i]\<close> was read. The program size
  comes from \<^verbatim>\<open>off_t st_size\<close>, so \<^verbatim>\<open>ip\<close> and the balance counters stay
  far below \<open>2 ^ 64\<close> and are natural numbers here; \<^verbatim>\<open>dp\<close> can wrap around
  and is a word.
\<close>

record engine =
  ip :: nat
  dp :: size_t
  mem :: data_t
  stdin :: "u8 list"
  stdout :: "u8 list"
  stderr :: "string list"
  overread :: "nat list"

definition engine_init :: "u8 list \<Rightarrow> engine" where
  "engine_init input =
     \<lparr>ip = 0, dp = 0, mem = data_init, stdin = input, stdout = [], stderr = [],
      overread = []\<rparr>"

text \<open>A read of \<^verbatim>\<open>program[i]\<close> inside the program.\<close>

definition fetch :: "'u list \<Rightarrow> nat \<Rightarrow> 'u option" where
  "fetch program i = (if i < length program then Some (program ! i) else None)"

text \<open>
  The read of \<^verbatim>\<open>opcode2\<close> in the forward scan. The scan tests
  \<^verbatim>\<open>ip == program_size\<close> before \<^verbatim>\<open>ip++\<close>, so it can read
  \<^verbatim>\<open>program[program_size]\<close>, the unit after the last one of the program. The
  loop does not stop there: it decodes what it has read. That unit is the parameter
  \<open>past\<close> (zero bytes where the file ends inside its last page, anything
  otherwise); the read is recorded in \<open>reads\<close>.
\<close>

definition fetch_past :: "'u list \<Rightarrow> 'u \<Rightarrow> nat \<Rightarrow> nat list \<Rightarrow> ('u \<times> nat list) option" where
  "fetch_past program past i reads =
     (case fetch program i of
        Some opcode2 \<Rightarrow> Some (opcode2, reads)
      | None \<Rightarrow> (if i = length program then Some (past, reads @ [i]) else None))"

text \<open>
  The inner \<^verbatim>\<open>while (balance != 0)\<close> loop of the \<^verbatim>\<open>INST_JMP_FORWARD\<close>
  case; the result is the value of \<^verbatim>\<open>ip\<close> when the loop is left, with the
  record of the reads past the program.
\<close>

function jmp_forward_scan ::
  "('u \<Rightarrow> instruction_t) \<Rightarrow> 'u list \<Rightarrow> 'u \<Rightarrow> nat \<Rightarrow> nat \<Rightarrow> nat list \<Rightarrow> fault + nat \<times> nat list" where
  "jmp_forward_scan decode program past i balance reads =
     (if balance \<noteq> 0 then
        (if i = length program then Inr (i, reads)
         else
           (case fetch_past program past (i + 1) reads of
              None \<Rightarrow> Inl FetchOutOfBounds
            | Some (opcode2, reads') \<Rightarrow>
                jmp_forward_scan decode program past (i + 1)
                  (case decode opcode2 of
                     INST_JMP_FORWARD \<Rightarrow> balance + 1
                   | INST_JMP_BACK \<Rightarrow> balance - 1
                   | _ \<Rightarrow> balance)
                  reads'))
      else Inr (i, reads))"
  by pat_completeness auto
termination
  by (relation "measure (\<lambda>(decode, program, past, i, balance, reads). length program + 1 - i)")
     (auto simp: fetch_past_def fetch_def split: if_splits)

text \<open>The inner loop of the \<^verbatim>\<open>INST_JMP_BACK\<close> case.\<close>

function jmp_back_scan ::
  "('u \<Rightarrow> instruction_t) \<Rightarrow> 'u list \<Rightarrow> nat \<Rightarrow> nat \<Rightarrow> fault + nat" where
  "jmp_back_scan decode program i balance =
     (if balance \<noteq> 0 then
        (if i = 0 then Inr (length program)
         else
           (case fetch program (i - 1) of
              None \<Rightarrow> Inl FetchOutOfBounds
            | Some opcode2 \<Rightarrow>
                jmp_back_scan decode program (i - 1)
                  (case decode opcode2 of
                     INST_JMP_FORWARD \<Rightarrow> balance - 1
                   | INST_JMP_BACK \<Rightarrow> balance + 1
                   | _ \<Rightarrow> balance)))
      else Inr i)"
  by pat_completeness auto
termination
  by (relation "measure (\<lambda>(decode, program, i, balance). i)") auto

declare jmp_forward_scan.simps [simp del] jmp_back_scan.simps [simp del]

text \<open>The \<^verbatim>\<open>ip++\<close> that ends every iteration of the main loop.\<close>

definition advance :: "engine \<Rightarrow> engine" where
  "advance s = s\<lparr>ip := ip s + 1\<rparr>"

text \<open>
  What the main loop does with the result of \<^verbatim>\<open>data_inc\<close>,
  \<^verbatim>\<open>data_dec\<close> and \<^verbatim>\<open>data_set\<close>: a non-zero return prints the message and
  sets \<^verbatim>\<open>ip = program_size\<close>. (The block is lost then; nothing reads it again.)
\<close>

definition after_data_op :: "'u list \<Rightarrow> engine \<Rightarrow> fault + data_t \<Rightarrow> fault + engine" where
  "after_data_op program s r =
     (case r of
        Inr d \<Rightarrow> Inr (advance (s\<lparr>mem := d\<rparr>))
      | Inl OutOfMemory \<Rightarrow>
          Inr (advance (s\<lparr>ip := length program, stderr := stderr s @ [''Out of memory'']\<rparr>))
      | Inl e \<Rightarrow> Inl e)"

text \<open>
  One iteration of \<^verbatim>\<open>while (ip < program_size)\<close>: fetch, decode, execute,
  \<^verbatim>\<open>ip++\<close>. The two interpreters differ only in the opcode unit and in
  \<^verbatim>\<open>opcode_decode\<close>, which are parameters here, as is the unit \<open>past\<close>
  after the program.
\<close>

definition step ::
  "('u \<Rightarrow> instruction_t) \<Rightarrow> (size_t \<Rightarrow> bool) \<Rightarrow> 'u list \<Rightarrow> 'u \<Rightarrow> engine \<Rightarrow> fault + engine" where
  "step decode realloc_ok program past s =
     (case fetch program (ip s) of
        None \<Rightarrow> Inl FetchOutOfBounds
      | Some opcode \<Rightarrow>
          (case decode opcode of
             INST_DP_INC \<Rightarrow> Inr (advance (s\<lparr>dp := dp s + 1\<rparr>))
           | INST_DP_DEC \<Rightarrow> Inr (advance (s\<lparr>dp := dp s - 1\<rparr>))
           | INST_VAL_INC \<Rightarrow> after_data_op program s (data_inc realloc_ok (mem s) (dp s))
           | INST_VAL_DEC \<Rightarrow> after_data_op program s (data_dec realloc_ok (mem s) (dp s))
           | INST_VAL_OUTPUT \<Rightarrow>
               Inr (advance (s\<lparr>stdout := stdout s @ [data_get (mem s) (dp s)]\<rparr>))
           | INST_VAL_ACCEPT \<Rightarrow>
               (case stdin s of
                  [] \<Rightarrow> Inr (advance (s\<lparr>ip := length program\<rparr>))
                | input_val # rest \<Rightarrow>
                    after_data_op program (s\<lparr>stdin := rest\<rparr>)
                      (data_set realloc_ok (mem s) (dp s) input_val))
           | INST_JMP_FORWARD \<Rightarrow>
               (if data_get (mem s) (dp s) = 0 then
                  (case jmp_forward_scan decode program past (ip s) 1 (overread s) of
                     Inl e \<Rightarrow> Inl e
                   | Inr (i, reads) \<Rightarrow> Inr (advance (s\<lparr>ip := i, overread := reads\<rparr>)))
                else Inr (advance s))
           | INST_JMP_BACK \<Rightarrow>
               (if data_get (mem s) (dp s) \<noteq> 0 then
                  (case jmp_back_scan decode program (ip s) 1 of
                     Inl e \<Rightarrow> Inl e
                   | Inr i \<Rightarrow> Inr (advance (s\<lparr>ip := i\<rparr>)))
                else Inr (advance s))
           | INST_NOP \<Rightarrow> Inr (advance s)))"

text \<open>
  The main loop, with a bound on the number of iterations: \<open>Finished\<close> when
  \<^verbatim>\<open>ip < program_size\<close> fails, \<open>Faulted\<close> at a fault,
  \<open>Unfinished\<close> with the state reached when the bound runs out.
\<close>

datatype run_result = Finished engine | Faulted fault | Unfinished engine

fun run ::
  "('u \<Rightarrow> instruction_t) \<Rightarrow> (size_t \<Rightarrow> bool) \<Rightarrow> 'u list \<Rightarrow> 'u \<Rightarrow> nat \<Rightarrow> engine \<Rightarrow>
     run_result" where
  "run decode realloc_ok program past 0 s =
     (if ip s < length program then Unfinished s else Finished s)"
| "run decode realloc_ok program past (Suc n) s =
     (if ip s < length program then
        (case step decode realloc_ok program past s of
           Inl e \<Rightarrow> Faulted e
         | Inr s' \<Rightarrow> run decode realloc_ok program past n s')
      else Finished s)"

text \<open>
  What the caller of \<^verbatim>\<open>main\<close> sees once the loop is left: the exit status
  (\<^verbatim>\<open>return 0\<close>), standard output and standard error.
\<close>

definition outcome :: "run_result \<Rightarrow> (int \<times> u8 list \<times> string list) option" where
  "outcome r = (case r of Finished s \<Rightarrow> Some (0, stdout s, stderr s) | _ \<Rightarrow> None)"

text \<open>
  The two interpreters, from \<^verbatim>\<open>size_t ip = 0\<close> on. Opening and mapping the
  source file (exit statuses 1 to 4) come before and are not part of the model.
\<close>

definition brainfuck_main ::
  "(size_t \<Rightarrow> bool) \<Rightarrow> string \<Rightarrow> char \<Rightarrow> nat \<Rightarrow> u8 list \<Rightarrow> run_result" where
  "brainfuck_main realloc_ok src past n input =
     run brainfuck_opcode_decode realloc_ok (brainfuck_program src) past n (engine_init input)"

definition ichiglyph_main ::
  "(size_t \<Rightarrow> bool) \<Rightarrow> string \<Rightarrow> ichiglyph_opcode_t \<Rightarrow> nat \<Rightarrow> u8 list \<Rightarrow> run_result" where
  "ichiglyph_main realloc_ok src past n input =
     run ichiglyph_opcode_decode realloc_ok (ichiglyph_program src) past n (engine_init input)"

text \<open>An allocator that never fails, for running concrete programs.\<close>

definition realloc_always :: "size_t \<Rightarrow> bool" where
  "realloc_always sz = True"

section \<open>Jump targets, as the specification words them\<close>

text \<open>
  The specification describes the target of a jump by a balance counter that starts at
  1, goes up at every further bracket of the same kind and down at every bracket of
  the other kind, and stops the scan when it reaches 0. \<open>forward_balance\<close> is the
  counter after the forward scan from \<open>i + 1\<close> has read index \<open>j\<close>,
  \<open>back_balance\<close> the counter after the backward scan from \<open>i - 1\<close> has read
  index \<open>j\<close>; the matching bracket is the first index, in scan order, where the
  counter is 0.
\<close>

fun forward_weight :: "instruction_t \<Rightarrow> int" where
  "forward_weight INST_JMP_FORWARD = 1"
| "forward_weight INST_JMP_BACK = - 1"
| "forward_weight _ = 0"

fun back_weight :: "instruction_t \<Rightarrow> int" where
  "back_weight INST_JMP_BACK = 1"
| "back_weight INST_JMP_FORWARD = - 1"
| "back_weight _ = 0"

definition forward_balance :: "('u \<Rightarrow> instruction_t) \<Rightarrow> 'u list \<Rightarrow> nat \<Rightarrow> nat \<Rightarrow> int" where
  "forward_balance decode program i j =
     1 + (\<Sum>n\<leftarrow>[i + 1..<j + 1]. forward_weight (decode (program ! n)))"

definition matching_close :: "('u \<Rightarrow> instruction_t) \<Rightarrow> 'u list \<Rightarrow> nat \<Rightarrow> nat option" where
  "matching_close decode program i =
     find (\<lambda>j. forward_balance decode program i j = 0) [i + 1..<length program]"

definition back_balance :: "('u \<Rightarrow> instruction_t) \<Rightarrow> 'u list \<Rightarrow> nat \<Rightarrow> nat \<Rightarrow> int" where
  "back_balance decode program i j =
     1 + (\<Sum>n\<leftarrow>[j..<i]. back_weight (decode (program ! n)))"

definition matching_open :: "('u \<Rightarrow> instruction_t) \<Rightarrow> 'u list \<Rightarrow> nat \<Rightarrow> nat option" where
  "matching_open decode program i =
     find (\<lambda>j. back_balance decode program i j = 0) (rev [0..<i])"

section \<open>Data memory: reads after writes\<close>

lemma data_bound_ok:
  assumes "data_ok d" "data_bound realloc_ok d p = Inr d'"
  shows "data_ok d'"
proof (cases "dsize d \<le> p")
  case True
  define sz where "sz = p + 1 + DATA_GRANULARITY"
  from assms True have le: "dsize d \<le> sz"
    and d': "d' = \<lparr>data = data d @ replicate (unat (sz - dsize d)) 0, dsize = sz\<rparr>"
    by (auto simp: data_bound_def Let_def sz_def split: if_splits)
  from le have "unat (sz - dsize d) = unat sz - unat (dsize d)"
    by (simp add: unat_sub)
  with le assms(1) show ?thesis
    by (simp add: d' data_ok_def word_le_nat_alt)
next
  case False
  with assms show ?thesis by (simp add: data_bound_def)
qed

lemma data_bound_get:
  assumes "data_ok d" "data_bound realloc_ok d p = Inr d'"
  shows "data_get d' q = data_get d q"
proof (cases "dsize d \<le> p")
  case True
  define sz where "sz = p + 1 + DATA_GRANULARITY"
  from assms True have le: "dsize d \<le> sz"
    and d': "d' = \<lparr>data = data d @ replicate (unat (sz - dsize d)) 0, dsize = sz\<rparr>"
    by (auto simp: data_bound_def Let_def sz_def split: if_splits)
  from le have len: "unat (sz - dsize d) = unat sz - unat (dsize d)"
    by (simp add: unat_sub)
  show ?thesis
  proof (cases "sz \<le> q")
    case True
    with le have "dsize d \<le> q" by simp
    with True show ?thesis by (simp add: data_get_def d')
  next
    case False
    then have "unat q < unat sz" by (simp add: word_le_nat_alt)
    with assms(1) le show ?thesis
      by (auto simp: data_get_def d' data_ok_def nth_append len word_le_nat_alt)
  qed
next
  case False
  with assms show ?thesis by (simp add: data_bound_def)
qed

lemma data_store_get:
  assumes "data_ok d" "data_store d p f = Inr d'"
  shows "data_ok d' \<and> data_get d' q = (if q = p then f (data_get d p) else data_get d q)"
proof -
  from assms have lt: "unat p < length (data d)"
    and d': "d' = d\<lparr>data := (data d)[unat p := f (data d ! unat p)]\<rparr>"
    by (auto simp: data_store_def split: if_splits)
  from lt assms(1) have "p < dsize d" by (simp add: data_ok_def word_less_nat_alt)
  with lt assms(1) show ?thesis
    by (auto simp: d' data_ok_def data_get_def nth_list_update word_le_nat_alt
        word_unat_eq_iff)
qed

lemma data_inc_get:
  assumes "data_ok d" "data_inc realloc_ok d p = Inr d'"
  shows "data_ok d' \<and> data_get d' q = (if q = p then data_get d p + 1 else data_get d q)"
proof -
  from assms(2) obtain d1 where 1: "data_bound realloc_ok d p = Inr d1"
    and 2: "data_store d1 p (\<lambda>v. v + 1) = Inr d'"
    by (auto simp: data_inc_def split: sum.splits)
  from data_bound_ok[OF assms(1) 1] data_bound_get[OF assms(1) 1] data_store_get[OF _ 2]
  show ?thesis by simp
qed

lemma data_dec_get:
  assumes "data_ok d" "data_dec realloc_ok d p = Inr d'"
  shows "data_ok d' \<and> data_get d' q = (if q = p then data_get d p - 1 else data_get d q)"
proof -
  from assms(2) obtain d1 where 1: "data_bound realloc_ok d p = Inr d1"
    and 2: "data_store d1 p (\<lambda>v. v - 1) = Inr d'"
    by (auto simp: data_dec_def split: sum.splits)
  from data_bound_ok[OF assms(1) 1] data_bound_get[OF assms(1) 1] data_store_get[OF _ 2]
  show ?thesis by simp
qed

lemma data_set_get:
  assumes "data_ok d" "data_set realloc_ok d p val = Inr d'"
  shows "data_ok d' \<and> data_get d' q = (if q = p then val else data_get d q)"
proof -
  from assms(2) obtain d1 where 1: "data_bound realloc_ok d p = Inr d1"
    and 2: "data_store d1 p (\<lambda>v. val) = Inr d'"
    by (auto simp: data_set_def split: sum.splits)
  from data_bound_ok[OF assms(1) 1] data_bound_get[OF assms(1) 1] data_store_get[OF _ 2]
  show ?thesis by simp
qed

text \<open>
  Growth where the new size does not wrap around: the block gets
  \<open>p + 1 + 32768\<close> cells, the old cells are kept and the new ones are 0.
\<close>

lemma data_bound_grows:
  assumes "data_ok d" "dsize d \<le> p" "unat p + 32769 < 2 ^ 64"
    "realloc_ok (p + 1 + DATA_GRANULARITY)"
  shows "data_bound realloc_ok d p =
           Inr \<lparr>data = data d @ replicate (unat p + 32769 - length (data d)) 0,
                dsize = p + 1 + DATA_GRANULARITY\<rparr> \<and>
         unat (p + 1 + DATA_GRANULARITY) = unat p + 32769"
proof -
  define sz where "sz = p + 1 + DATA_GRANULARITY"
  have "sz = p + 32769" by (simp add: sz_def DATA_GRANULARITY_def)
  moreover have "unat (p + 32769) = unat p + unat (32769 :: size_t)"
    using assms(3) by (intro unat_add_lem[THEN iffD1]) simp
  ultimately have sz: "unat sz = unat p + 32769" by simp
  with assms(2) have le: "dsize d \<le> sz" by (simp add: word_le_nat_alt)
  then have "unat (sz - dsize d) = unat sz - unat (dsize d)" by (simp add: unat_sub)
  with assms(1) sz have "unat (sz - dsize d) = unat p + 32769 - length (data d)"
    by (simp add: data_ok_def)
  with assms(2,4) le sz show ?thesis
    by (simp add: data_bound_def Let_def sz_def[symmetric] not_less[symmetric])
qed

lemma data_get_beyond: "dsize d \<le> p \<Longrightarrow> data_get d p = 0"
  by (simp add: data_get_def)

lemma data_ok_init: "data_ok data_init"
  by (simp add: data_ok_def data_init_def)

lemma data_get_init: "data_get data_init p = 0"
  by (simp add: data_get_def data_init_def)

text \<open>
  Below the last 32769 indices of \<^verbatim>\<open>size_t\<close> the operations either report that
  memory is exhausted or succeed.
\<close>

lemma data_bound_in_range:
  assumes "data_ok d" "unat p + 32769 < 2 ^ 64"
  shows "data_bound realloc_ok d p = Inl OutOfMemory \<or>
         (\<exists>d'. data_bound realloc_ok d p = Inr d' \<and> unat p < length (data d'))"
proof (cases "dsize d \<le> p")
  case False
  with assms(1) show ?thesis
    by (simp add: data_bound_def data_ok_def word_le_nat_alt)
next
  case True
  show ?thesis
  proof (cases "realloc_ok (p + 1 + DATA_GRANULARITY)")
    case False
    with True show ?thesis by (simp add: data_bound_def)
  next
    case ok: True
    from True assms(1) have "length (data d) \<le> unat p"
      by (simp add: data_ok_def word_le_nat_alt)
    with data_bound_grows[where d = d and p = p and realloc_ok = realloc_ok,
        OF assms(1) True assms(2) ok] show ?thesis
      by simp
  qed
qed

lemma data_ops_in_range:
  assumes "data_ok d" "unat p + 32769 < 2 ^ 64"
  shows "data_inc realloc_ok d p = Inl OutOfMemory \<or> (\<exists>d'. data_inc realloc_ok d p = Inr d')"
    and "data_dec realloc_ok d p = Inl OutOfMemory \<or> (\<exists>d'. data_dec realloc_ok d p = Inr d')"
    and "data_set realloc_ok d p val = Inl OutOfMemory \<or>
         (\<exists>d'. data_set realloc_ok d p val = Inr d')"
  using data_bound_in_range[OF assms, of realloc_ok]
  by (auto simp: data_inc_def data_dec_def data_set_def data_store_def)

lemma data_ops_no_fetch_fault:
  "data_inc realloc_ok d p \<noteq> Inl FetchOutOfBounds"
  "data_dec realloc_ok d p \<noteq> Inl FetchOutOfBounds"
  "data_set realloc_ok d p val \<noteq> Inl FetchOutOfBounds"
  by (auto simp: data_inc_def data_dec_def data_set_def data_bound_def data_store_def Let_def
      split: sum.splits if_splits)

text \<open>A first write far beyond the empty block: every other cell reads 0.\<close>

lemma tape_growth_example:
  "\<exists>d. data_set realloc_always data_init 32773 val = Inr d \<and>
       (\<forall>q. data_get d q = (if q = 32773 then val else 0))"
proof -
  have "data_set realloc_always data_init 32773 val =
      Inr \<lparr>data = (replicate 65542 0)[32773 := val], dsize = 65542\<rparr>"
    by (simp add: data_set_def data_bound_def data_store_def data_init_def
        DATA_GRANULARITY_def realloc_always_def)
  with data_set_get[OF data_ok_init this] show ?thesis
    by (simp add: data_get_init)
qed

section \<open>The scans find the matching bracket\<close>

text \<open>
  The matching bracket is the nearest index in scan direction where the balance
  counter is 0.
\<close>

lemma find_rev_upt:
  "find P (rev [0..<i]) = Some j \<longleftrightarrow> j < i \<and> P j \<and> (\<forall>k. j < k \<and> k < i \<longrightarrow> \<not> P k)"
proof (induction i)
  case 0
  show ?case by simp
next
  case (Suc i)
  show ?case
  proof (cases "P i")
    case True
    then show ?thesis by (auto simp: less_Suc_eq)
  next
    case False
    with Suc show ?thesis by (auto simp: less_Suc_eq)
  qed
qed

lemma find_upt:
  "find P [a..<b] = Some j \<longleftrightarrow> a \<le> j \<and> j < b \<and> P j \<and> (\<forall>k. a \<le> k \<and> k < j \<longrightarrow> \<not> P k)"
proof (induction "b - a" arbitrary: a)
  case 0
  then show ?case by simp
next
  case (Suc n)
  then have lt: "a < b" and n: "n = b - Suc a" by simp_all
  from lt have upt: "[a..<b] = a # [Suc a..<b]" by (rule upt_conv_Cons)
  show ?case
  proof (cases "P a")
    case True
    then show ?thesis unfolding upt using lt by (auto simp: not_less)
  next
    case False
    have "(\<forall>k. a \<le> k \<and> k < j \<longrightarrow> \<not> P k) \<longleftrightarrow> (\<forall>k. Suc a \<le> k \<and> k < j \<longrightarrow> \<not> P k)"
      using False by (metis Suc_leI le_neq_implies_less Suc_leD)
    moreover have "a \<le> j \<and> P j \<longleftrightarrow> Suc a \<le> j \<and> P j"
      using False by (metis Suc_leI le_neq_implies_less Suc_leD)
    ultimately show ?thesis unfolding upt using False Suc.hyps(1)[OF n] by auto
  qed
qed

lemma matching_open_Some:
  "matching_open decode program i = Some j \<longleftrightarrow>
     j < i \<and> back_balance decode program i j = 0 \<and>
     (\<forall>k. j < k \<and> k < i \<longrightarrow> back_balance decode program i k \<noteq> 0)"
  unfolding matching_open_def by (rule find_rev_upt)

lemma matching_close_Some:
  "matching_close decode program i = Some j \<longleftrightarrow>
     i < j \<and> j < length program \<and> forward_balance decode program i j = 0 \<and>
     (\<forall>k. i < k \<and> k < j \<longrightarrow> forward_balance decode program i k \<noteq> 0)"
  unfolding matching_close_def by (simp add: find_upt Suc_le_eq)

lemma matching_example:
  "matching_close brainfuck_opcode_decode ''+[[-]>].'' 1 = Some 6 \<and>
   matching_close brainfuck_opcode_decode ''+[[-]>].'' 2 = Some 4 \<and>
   matching_open brainfuck_opcode_decode ''+[[-]>].'' 6 = Some 1 \<and>
   matching_open brainfuck_opcode_decode ''+[[-]>].'' 4 = Some 2 \<and>
   matching_close brainfuck_opcode_decode ''[[]'' 0 = None \<and>
   matching_open brainfuck_opcode_decode ''[]]'' 2 = None"
  by (simp add: matching_close_def matching_open_def forward_balance_def back_balance_def
      brainfuck_opcode_decode_def upt_rec)

lemma forward_counter:
  "0 < b \<Longrightarrow>
   int (case x of INST_JMP_FORWARD \<Rightarrow> b + 1 | INST_JMP_BACK \<Rightarrow> b - 1 | _ \<Rightarrow> b)
     = int b + forward_weight x"
  by (cases x) simp_all

lemma back_counter:
  "0 < b \<Longrightarrow>
   int (case x of INST_JMP_FORWARD \<Rightarrow> b - 1 | INST_JMP_BACK \<Rightarrow> b + 1 | _ \<Rightarrow> b)
     = int b + back_weight x"
  by (cases x) simp_all

text \<open>
  Once \<^verbatim>\<open>ip\<close> is \<^verbatim>\<open>program_size\<close>, the forward scan is left whatever the
  balance is: by the loop condition or by the guard.
\<close>

lemma jmp_forward_scan_at_end:
  "jmp_forward_scan decode program past (length program) b reads = Inr (length program, reads)"
  by (subst jmp_forward_scan.simps) simp

lemma jmp_forward_scan_find:
  assumes "i < length program" "0 < b"
  shows "jmp_forward_scan decode program past i b reads =
     Inr (case find (\<lambda>j. int b + (\<Sum>n\<leftarrow>[i + 1..<j + 1]. forward_weight (decode (program ! n))) = 0)
                 [i + 1..<length program] of
            Some j \<Rightarrow> (j, reads)
          | None \<Rightarrow> (length program, reads @ [length program]))"
  using assms
proof (induction decode program past i b reads rule: jmp_forward_scan.induct)
  case (1 decode program past i b reads)
  let ?w = "\<lambda>n. forward_weight (decode (program ! n))"
  show ?case
  proof (cases "Suc i < length program")
    case False
    with "1.prems" have at_end: "Suc i = length program" by simp
    then have "fetch_past program past (i + 1) reads = Some (past, reads @ [length program])"
      by (simp add: fetch_past_def fetch_def)
    with "1.prems" at_end have "jmp_forward_scan decode program past i b reads =
        Inr (length program, reads @ [length program])"
      by (subst jmp_forward_scan.simps) (simp add: jmp_forward_scan_at_end)
    with at_end show ?thesis by simp
  next
    case True
    define b' where "b' = (case decode (program ! Suc i) of
        INST_JMP_FORWARD \<Rightarrow> b + 1 | INST_JMP_BACK \<Rightarrow> b - 1 | _ \<Rightarrow> b)"
    have b': "int b' = int b + ?w (Suc i)"
      unfolding b'_def using "1.prems"(2) by (rule forward_counter)
    have fetch: "fetch_past program past (i + 1) reads = Some (program ! Suc i, reads)"
      using True by (simp add: fetch_past_def fetch_def)
    have unf: "jmp_forward_scan decode program past i b reads =
        jmp_forward_scan decode program past (Suc i) b' reads"
      using True "1.prems" fetch by (subst jmp_forward_scan.simps) (simp add: b'_def)
    have upt: "[i + 1..<length program] = Suc i # [Suc i + 1..<length program]"
      using True by (simp add: upt_conv_Cons)
    have sum: "(\<Sum>n\<leftarrow>[i + 1..<j + 1]. ?w n) = ?w (Suc i) + (\<Sum>n\<leftarrow>[Suc i + 1..<j + 1]. ?w n)"
      if "Suc i \<le> j" for j
    proof -
      from that have "[i + 1..<j + 1] = Suc i # [Suc i + 1..<j + 1]"
        using upt_conv_Cons[of "Suc i" "Suc j"] by simp
      then show ?thesis by simp
    qed
    show ?thesis
    proof (cases "b' = 0")
      case True
      then have "jmp_forward_scan decode program past (Suc i) b' reads = Inr (Suc i, reads)"
        by (subst jmp_forward_scan.simps) simp
      moreover from True b' have "int b + (\<Sum>n\<leftarrow>[i + 1..<Suc i + 1]. ?w n) = 0"
        by simp
      ultimately show ?thesis unfolding unf upt by simp
    next
      case False
      with b' have ne: "int b + (\<Sum>n\<leftarrow>[i + 1..<Suc i + 1]. ?w n) \<noteq> 0"
        by simp
      have IH: "jmp_forward_scan decode program past (Suc i) b' reads =
        Inr (case find (\<lambda>j. int b' + (\<Sum>n\<leftarrow>[Suc i + 1..<j + 1]. ?w n) = 0)
                    [Suc i + 1..<length program] of
               Some j \<Rightarrow> (j, reads)
             | None \<Rightarrow> (length program, reads @ [length program]))"
        using "1.IH"[OF _ _ fetch refl] "1.prems" True False by (simp add: b'_def)
      have "find (\<lambda>j. int b + (\<Sum>n\<leftarrow>[i + 1..<j + 1]. ?w n) = 0) [Suc i + 1..<length program]
          = find (\<lambda>j. int b' + (\<Sum>n\<leftarrow>[Suc i + 1..<j + 1]. ?w n) = 0) [Suc i + 1..<length program]"
      proof (rule find_cong[OF refl])
        fix x assume "x \<in> set [Suc i + 1..<length program]"
        then have "Suc i \<le> x" by simp
        then show "(int b + (\<Sum>n\<leftarrow>[i + 1..<x + 1]. ?w n) = 0)
            = (int b' + (\<Sum>n\<leftarrow>[Suc i + 1..<x + 1]. ?w n) = 0)"
          unfolding sum[OF \<open>Suc i \<le> x\<close>] b' by (simp only: add.assoc)
      qed
      with ne IH show ?thesis unfolding unf upt by simp
    qed
  qed
qed

lemma jmp_back_scan_find:
  assumes "i \<le> length program" "0 < b"
  shows "jmp_back_scan decode program i b =
     Inr (case find (\<lambda>j. int b + (\<Sum>n\<leftarrow>[j..<i]. back_weight (decode (program ! n))) = 0)
                 (rev [0..<i]) of
            Some j \<Rightarrow> j
          | None \<Rightarrow> length program)"
  using assms
proof (induction i arbitrary: b)
  case 0
  then show ?case by (subst jmp_back_scan.simps) simp
next
  case (Suc i)
  let ?w = "\<lambda>n. back_weight (decode (program ! n))"
  define b' where "b' = (case decode (program ! i) of
      INST_JMP_FORWARD \<Rightarrow> b - 1 | INST_JMP_BACK \<Rightarrow> b + 1 | _ \<Rightarrow> b)"
  have b': "int b' = int b + ?w i"
    unfolding b'_def using Suc.prems(2) by (rule back_counter)
  have unf: "jmp_back_scan decode program (Suc i) b = jmp_back_scan decode program i b'"
    using Suc.prems by (subst jmp_back_scan.simps) (simp add: fetch_def b'_def)
  have sum: "(\<Sum>n\<leftarrow>[j..<Suc i]. ?w n) = (\<Sum>n\<leftarrow>[j..<i]. ?w n) + ?w i" if "j \<le> i" for j
    using that by simp
  show ?case
  proof (cases "b' = 0")
    case True
    then have "jmp_back_scan decode program i b' = Inr i"
      by (subst jmp_back_scan.simps) simp
    moreover from True b' have "int b + (\<Sum>n\<leftarrow>[i..<Suc i]. ?w n) = 0"
      by simp
    ultimately show ?thesis unfolding unf by simp
  next
    case False
    with b' have ne: "int b + (\<Sum>n\<leftarrow>[i..<Suc i]. ?w n) \<noteq> 0"
      by simp
    have IH: "jmp_back_scan decode program i b' =
       Inr (case find (\<lambda>j. int b' + (\<Sum>n\<leftarrow>[j..<i]. ?w n) = 0) (rev [0..<i]) of
              Some j \<Rightarrow> j | None \<Rightarrow> length program)"
      using Suc.IH[of b'] Suc.prems(1) False by simp
    have "find (\<lambda>j. int b + (\<Sum>n\<leftarrow>[j..<Suc i]. ?w n) = 0) (rev [0..<i])
        = find (\<lambda>j. int b' + (\<Sum>n\<leftarrow>[j..<i]. ?w n) = 0) (rev [0..<i])"
    proof (rule find_cong[OF refl])
      fix x assume "x \<in> set (rev [0..<i])"
      then have "x \<le> i" by simp
      show "(int b + (\<Sum>n\<leftarrow>[x..<Suc i]. ?w n) = 0) = (int b' + (\<Sum>n\<leftarrow>[x..<i]. ?w n) = 0)"
        unfolding sum[OF \<open>x \<le> i\<close>] b' by (simp only: add.assoc add.commute)
    qed
    with ne IH show ?thesis unfolding unf by simp
  qed
qed

lemma jmp_forward_scan_matching:
  "i < length program \<Longrightarrow>
   jmp_forward_scan decode program past i 1 reads =
     Inr (case matching_close decode program i of
            Some j \<Rightarrow> (j, reads)
          | None \<Rightarrow> (length program, reads @ [length program]))"
  using jmp_forward_scan_find[of i program 1 decode past reads]
  by (simp add: matching_close_def forward_balance_def)

lemma jmp_back_scan_matching:
  "i \<le> length program \<Longrightarrow>
   jmp_back_scan decode program i 1 =
     Inr (case matching_open decode program i of Some j \<Rightarrow> j | None \<Rightarrow> length program)"
  using jmp_back_scan_find[of i program 1 decode]
  by (simp add: matching_open_def back_balance_def)

lemma run_terminal:
  "length program \<le> ip s \<Longrightarrow> run decode realloc_ok program past n s = Finished s"
  by (cases n) simp_all

section \<open>The data memory stays well-formed\<close>

lemma after_data_op_ok:
  assumes "data_ok (mem s)" "after_data_op program s r = Inr s'"
    "\<And>d. r = Inr d \<Longrightarrow> data_ok d"
  shows "data_ok (mem s')"
  using assms
  by (auto simp: after_data_op_def advance_def split: sum.splits fault.splits)

lemma step_data_ok:
  assumes "data_ok (mem s)" "step decode realloc_ok program past s = Inr s'"
  shows "data_ok (mem s')"
proof (cases "fetch program (ip s)")
  case None
  with assms(2) show ?thesis by (simp add: step_def)
next
  case (Some opcode)
  show ?thesis
  proof (cases "decode opcode")
    case INST_VAL_INC
    with Some assms(2)
    have "after_data_op program s (data_inc realloc_ok (mem s) (dp s)) = Inr s'"
      by (simp add: step_def)
    with assms(1) show ?thesis
      by (rule after_data_op_ok) (simp add: data_inc_get[OF assms(1)])
  next
    case INST_VAL_DEC
    with Some assms(2)
    have "after_data_op program s (data_dec realloc_ok (mem s) (dp s)) = Inr s'"
      by (simp add: step_def)
    with assms(1) show ?thesis
      by (rule after_data_op_ok) (simp add: data_dec_get[OF assms(1)])
  next
    case INST_VAL_ACCEPT
    show ?thesis
    proof (cases "stdin s")
      case Nil
      with Some INST_VAL_ACCEPT assms show ?thesis
        by (auto simp: step_def advance_def)
    next
      case (Cons input_val rest)
      from assms(1) have "data_ok (mem (s\<lparr>stdin := rest\<rparr>))" by simp
      moreover from Cons Some INST_VAL_ACCEPT assms(2)
      have "after_data_op program (s\<lparr>stdin := rest\<rparr>)
              (data_set realloc_ok (mem s) (dp s) input_val) = Inr s'"
        by (simp add: step_def)
      ultimately show ?thesis
        by (rule after_data_op_ok) (simp add: data_set_get[OF assms(1)])
    qed
  qed (use Some assms in \<open>auto simp: step_def advance_def split: if_splits sum.splits\<close>)
qed

lemma run_data_ok:
  assumes "data_ok (mem s)"
    "run decode realloc_ok program past n s = Finished s' \<or>
     run decode realloc_ok program past n s = Unfinished s'"
  shows "data_ok (mem s')"
  using assms
proof (induction n arbitrary: s)
  case 0
  then show ?case by (auto split: if_splits)
next
  case (Suc n)
  show ?case
  proof (cases "ip s < length program")
    case False
    with Suc.prems show ?thesis by auto
  next
    case True
    show ?thesis
    proof (cases "step decode realloc_ok program past s")
      case (Inl e)
      with True Suc.prems show ?thesis by simp
    next
      case (Inr s1)
      from step_data_ok[OF Suc.prems(1) Inr] have "data_ok (mem s1)" .
      moreover from True Inr Suc.prems(2)
      have "run decode realloc_ok program past n s1 = Finished s' \<or>
            run decode realloc_ok program past n s1 = Unfinished s'" by simp
      ultimately show ?thesis by (rule Suc.IH)
    qed
  qed
qed

section \<open>The engine reads the program only through the decoder\<close>










lemma brainfuck_decode_encode:
  "map brainfuck_opcode_decode (brainfuck_program (brainfuck_encode i)) =
     (if i = INST_NOP then [] else [i])"
  by (cases i) (simp_all add: brainfuck_opcode_decode_def brainfuck_program_def)


lemma ichiglyph_decode_encode:
  "map ichiglyph_opcode_decode (ichiglyph_program (ichiglyph_encode i)) =
     (if i = INST_NOP then [] else [i])"
  by (cases i) (simp_all add: ichiglyph_opcode_decode_def)



section \<open>Concrete runs\<close>

lemma data_inc_first_cell:
  "data_inc realloc_always \<lparr>data = [], dsize = 0\<rparr> 0 =
     Inr \<lparr>data = (replicate 32769 0)[0 := 1], dsize = 32769\<rparr>"
  by (simp add: data_inc_def data_bound_def data_store_def
      DATA_GRANULARITY_def realloc_always_def)

lemma data_inc_last_index:
  "data_inc realloc_always \<lparr>data = [], dsize = 0\<rparr> (- 1) = Inl DataOutOfBounds"
  by (simp add: data_inc_def data_bound_def data_store_def
      DATA_GRANULARITY_def realloc_always_def unsigned_minus_1_eq_mask mask_eq_exp_minus_1)

lemmas engine_defs = step_def fetch_def advance_def after_data_op_def engine_init_def
  data_init_def brainfuck_main_def ichiglyph_main_def brainfuck_program_def

section \<open>Forward jumps\<close>

lemma jmp_forward_step:
  assumes "ip s < length program" "decode (program ! ip s) = INST_JMP_FORWARD"
  shows "step decode realloc_ok program past s =
     Inr (if data_get (mem s) (dp s) \<noteq> 0 then s\<lparr>ip := ip s + 1\<rparr>
          else case matching_close decode program (ip s) of
                 Some j \<Rightarrow> s\<lparr>ip := j + 1\<rparr>
               | None \<Rightarrow> s\<lparr>ip := length program + 1,
                           overread := overread s @ [length program]\<rparr>)"
proof (cases "data_get (mem s) (dp s) = 0")
  case False
  with assms show ?thesis by (simp add: step_def fetch_def advance_def)
next
  case True
  from assms(1) have "jmp_forward_scan decode program past (ip s) 1 (overread s) =
      Inr (case matching_close decode program (ip s) of
             Some j \<Rightarrow> (j, overread s)
           | None \<Rightarrow> (length program, overread s @ [length program]))"
    by (rule jmp_forward_scan_matching)
  with True assms show ?thesis
    by (cases "matching_close decode program (ip s)") (simp_all add: step_def fetch_def advance_def)
qed

text \<open>
  C1 (forward jump): when the instruction at \<open>ip\<close> is \<^verbatim>\<open>INST_JMP_FORWARD\<close>,
  a non-zero cell falls through to \<open>ip + 1\<close>; a zero cell makes the scan from
  \<open>ip + 1\<close> stop at the first index where the balance counter is 0, and the
  \<^verbatim>\<open>ip++\<close> after the dispatch resumes one instruction past that matching close
  (\<open>matching_close\<close>, see \<open>matching_close_Some\<close>); when no index of the program
  matches, the scan ends at \<^verbatim>\<open>program_size\<close> and the run is over after this
  instruction, whatever unit the scan reads after the program.
\<close>

theorem jmp_forward_resumes_after_matching_close:
  assumes "ip s < length program" "decode (program ! ip s) = INST_JMP_FORWARD"
  shows "step decode realloc_ok program past s =
           Inr (if data_get (mem s) (dp s) \<noteq> 0 then s\<lparr>ip := ip s + 1\<rparr>
                else case matching_close decode program (ip s) of
                       Some j \<Rightarrow> s\<lparr>ip := j + 1\<rparr>
                     | None \<Rightarrow> s\<lparr>ip := length program + 1,
                                 overread := overread s @ [length program]\<rparr>) \<and>
         (data_get (mem s) (dp s) = 0 \<and> matching_close decode program (ip s) = None \<longrightarrow>
            run decode realloc_ok program past (Suc n) s =
              Finished (s\<lparr>ip := length program + 1,
                          overread := overread s @ [length program]\<rparr>))"
proof (intro conjI impI)
  show "step decode realloc_ok program past s =
           Inr (if data_get (mem s) (dp s) \<noteq> 0 then s\<lparr>ip := ip s + 1\<rparr>
                else case matching_close decode program (ip s) of
                       Some j \<Rightarrow> s\<lparr>ip := j + 1\<rparr>
                     | None \<Rightarrow> s\<lparr>ip := length program + 1,
                                 overread := overread s @ [length program]\<rparr>)"
    using assms by (rule jmp_forward_step)
next
  assume "data_get (mem s) (dp s) = 0 \<and> matching_close decode program (ip s) = None"
  with jmp_forward_step[where s = s and program = program and decode = decode
      and realloc_ok = realloc_ok and past = past, OF assms]
  have "step decode realloc_ok program past s =
      Inr (s\<lparr>ip := length program + 1, overread := overread s @ [length program]\<rparr>)"
    by simp
  with assms(1)
  show "run decode realloc_ok program past (Suc n) s =
      Finished (s\<lparr>ip := length program + 1, overread := overread s @ [length program]\<rparr>)"
    by (simp add: run_terminal)
qed

text \<open>
  The theorem at \<^verbatim>\<open>[-].\<close> with the cell 0 (the jump goes to index 3, past the
  close at index 2), and at \<^verbatim>\<open>[.\<close> with the cell 0 (no close: the run is over),
  the byte after the program being 0.
\<close>

theorem jmp_forward_resumes_after_matching_close_witness:
  "step brainfuck_opcode_decode realloc_always ''[-].'' (CHR 0x00) (engine_init []) =
     Inr \<lparr>ip = 3, dp = 0, mem = data_init, stdin = [], stdout = [], stderr = [],
          overread = []\<rparr> \<and>
   run brainfuck_opcode_decode realloc_always ''[.'' (CHR 0x00) (Suc 0) (engine_init []) =
     Finished \<lparr>ip = 3, dp = 0, mem = data_init, stdin = [], stdout = [], stderr = [],
               overread = [2]\<rparr>"
proof -
  have close1: "matching_close brainfuck_opcode_decode ''[-].'' 0 = Some 2"
    by (simp add: matching_close_def forward_balance_def brainfuck_opcode_decode_def upt_rec)
  have close2: "matching_close brainfuck_opcode_decode ''[.'' 0 = None"
    by (simp add: matching_close_def forward_balance_def brainfuck_opcode_decode_def upt_rec)
  have cell: "data_get (mem (engine_init [])) (dp (engine_init [])) = 0"
    by (simp add: engine_init_def data_get_init)
  have a: "ip (engine_init []) < length ''[-].''"
    "brainfuck_opcode_decode (''[-].'' ! ip (engine_init [])) = INST_JMP_FORWARD"
    by (simp_all add: engine_init_def brainfuck_opcode_decode_def)
  have b: "ip (engine_init []) < length ''[.''"
    "brainfuck_opcode_decode (''[.'' ! ip (engine_init [])) = INST_JMP_FORWARD"
    by (simp_all add: engine_init_def brainfuck_opcode_decode_def)
  have ip0: "ip (engine_init []) = 0" by (simp add: engine_init_def)
  from jmp_forward_resumes_after_matching_close[where s = "engine_init []"
         and program = "''[-].''" and decode = brainfuck_opcode_decode
         and realloc_ok = realloc_always and past = "CHR 0x00" and n = 0, OF a]
       jmp_forward_resumes_after_matching_close[where s = "engine_init []"
         and program = "''[.''" and decode = brainfuck_opcode_decode
         and realloc_ok = realloc_always and past = "CHR 0x00" and n = 0, OF b]
  show ?thesis
    unfolding cell ip0 close1 close2 by (simp add: engine_init_def)
qed

section \<open>Backward jumps\<close>

lemma jmp_back_step:
  assumes "ip s < length program" "decode (program ! ip s) = INST_JMP_BACK"
  shows "step decode realloc_ok program past s =
           Inr (s\<lparr>ip := (if data_get (mem s) (dp s) = 0 then ip s + 1
                         else case matching_open decode program (ip s) of
                                Some j \<Rightarrow> j + 1
                              | None \<Rightarrow> length program + 1)\<rparr>)"
proof (cases "data_get (mem s) (dp s) = 0")
  case True
  with assms show ?thesis by (simp add: step_def fetch_def advance_def)
next
  case False
  from assms(1) have "jmp_back_scan decode program (ip s) 1 =
      Inr (case matching_open decode program (ip s) of Some j \<Rightarrow> j | None \<Rightarrow> length program)"
    by (intro jmp_back_scan_matching less_imp_le)
  with False assms show ?thesis
    by (cases "matching_open decode program (ip s)") (simp_all add: step_def fetch_def advance_def)
qed

text \<open>
  C2 (backward jump): when the instruction at \<open>ip\<close> is \<^verbatim>\<open>INST_JMP_BACK\<close>, a
  zero cell falls through to \<open>ip + 1\<close>; a non-zero cell makes the scan from
  \<open>ip - 1\<close> stop at the first index where the balance counter is 0, and the
  \<^verbatim>\<open>ip++\<close> after the dispatch resumes one instruction past that matching open
  (\<open>matching_open\<close>, see \<open>matching_open_Some\<close>); when no index matches, the
  run is over after this instruction.
\<close>

theorem jmp_back_resumes_after_matching_open:
  assumes "ip s < length program" "decode (program ! ip s) = INST_JMP_BACK"
  shows "step decode realloc_ok program past s =
           Inr (s\<lparr>ip := (if data_get (mem s) (dp s) = 0 then ip s + 1
                         else case matching_open decode program (ip s) of
                                Some j \<Rightarrow> j + 1
                              | None \<Rightarrow> length program + 1)\<rparr>) \<and>
         (data_get (mem s) (dp s) \<noteq> 0 \<and> matching_open decode program (ip s) = None \<longrightarrow>
            run decode realloc_ok program past (Suc n) s = Finished (s\<lparr>ip := length program + 1\<rparr>))"
proof (intro conjI impI)
  show "step decode realloc_ok program past s =
           Inr (s\<lparr>ip := (if data_get (mem s) (dp s) = 0 then ip s + 1
                         else case matching_open decode program (ip s) of
                                Some j \<Rightarrow> j + 1
                              | None \<Rightarrow> length program + 1)\<rparr>)"
    using assms by (rule jmp_back_step)
next
  assume "data_get (mem s) (dp s) \<noteq> 0 \<and> matching_open decode program (ip s) = None"
  with jmp_back_step[where s = s and program = program and decode = decode
      and realloc_ok = realloc_ok and past = past, OF assms]
  have "step decode realloc_ok program past s = Inr (s\<lparr>ip := length program + 1\<rparr>)"
    by simp
  with assms(1)
  show "run decode realloc_ok program past (Suc n) s = Finished (s\<lparr>ip := length program + 1\<rparr>)"
    by (simp add: run_terminal)
qed

text \<open>
  The theorem at \<^verbatim>\<open>[-]\<close> with the cell 1 and \<open>ip\<close> at the close (the jump goes
  back to index 1), and at \<^verbatim>\<open>+]\<close> with the cell 1 (no open: the run is over).
\<close>

theorem jmp_back_resumes_after_matching_open_witness:
  "step brainfuck_opcode_decode realloc_always ''[-]'' (CHR 0x00)
     \<lparr>ip = 2, dp = 0, mem = \<lparr>data = [1], dsize = 1\<rparr>, stdin = [], stdout = [], stderr = [], overread = []\<rparr> =
   Inr \<lparr>ip = 1, dp = 0, mem = \<lparr>data = [1], dsize = 1\<rparr>, stdin = [], stdout = [], stderr = [], overread = []\<rparr> \<and>
   run brainfuck_opcode_decode realloc_always ''+]'' (CHR 0x00) (Suc 0)
     \<lparr>ip = 1, dp = 0, mem = \<lparr>data = [1], dsize = 1\<rparr>, stdin = [], stdout = [], stderr = [], overread = []\<rparr> =
   Finished
     \<lparr>ip = 3, dp = 0, mem = \<lparr>data = [1], dsize = 1\<rparr>, stdin = [], stdout = [], stderr = [], overread = []\<rparr>"
proof -
  let ?s = "\<lambda>i. \<lparr>ip = i, dp = 0, mem = \<lparr>data = [1], dsize = 1\<rparr>,
                  stdin = [], stdout = [], stderr = [], overread = []\<rparr>"
  have open1: "matching_open brainfuck_opcode_decode ''[-]'' 2 = Some 0"
    by (simp add: matching_open_def back_balance_def brainfuck_opcode_decode_def upt_rec)
  have open2: "matching_open brainfuck_opcode_decode ''+]'' (Suc 0) = None"
    by (simp add: matching_open_def back_balance_def brainfuck_opcode_decode_def upt_rec)
  have cell: "data_get \<lparr>data = [1], dsize = 1\<rparr> 0 = 1"
    by (simp add: data_get_def)
  have a: "ip (?s 2) < length ''[-]''" "brainfuck_opcode_decode (''[-]'' ! ip (?s 2)) = INST_JMP_BACK"
    by (simp_all add: brainfuck_opcode_decode_def)
  have b: "ip (?s 1) < length ''+]''" "brainfuck_opcode_decode (''+]'' ! ip (?s 1)) = INST_JMP_BACK"
    by (simp_all add: brainfuck_opcode_decode_def)
  from jmp_back_resumes_after_matching_open[where s = "?s 2" and program = "''[-]''"
         and decode = brainfuck_opcode_decode and realloc_ok = realloc_always
         and past = "CHR 0x00" and n = 0, OF a]
       jmp_back_resumes_after_matching_open[where s = "?s 1" and program = "''+]''"
         and decode = brainfuck_opcode_decode and realloc_ok = realloc_always
         and past = "CHR 0x00" and n = 0, OF b]
  show ?thesis by (simp add: open1 open2 cell)
qed

section \<open>The forward scan reads one unit past the program\<close>

lemma after_data_op_overread:
  "after_data_op program s r = Inr s' \<Longrightarrow> overread s' = overread s"
  by (auto simp: after_data_op_def advance_def split: sum.splits fault.splits)

text \<open>
  An iteration of the main loop reads the program past its end exactly when it is a
  forward jump on a zero cell without a matching close, and then at index
  \<^verbatim>\<open>program_size\<close>; no iteration reads further out.
\<close>

lemma step_overread:
  assumes "ip s < length program" "step decode realloc_ok program past s = Inr s'"
  shows "overread s' =
     (if decode (program ! ip s) = INST_JMP_FORWARD \<and> data_get (mem s) (dp s) = 0 \<and>
         matching_close decode program (ip s) = None
      then overread s @ [length program] else overread s)"
proof (cases "decode (program ! ip s)")
  case INST_JMP_FORWARD
  from jmp_forward_step[where s = s and program = program and decode = decode
      and realloc_ok = realloc_ok and past = past, OF assms(1) this] assms(2) INST_JMP_FORWARD
  show ?thesis by (auto split: if_splits option.splits)
next
  case INST_JMP_BACK
  from jmp_back_step[where s = s and program = program and decode = decode
      and realloc_ok = realloc_ok and past = past, OF assms(1) this] assms(2) INST_JMP_BACK
  show ?thesis by auto
next
  case INST_VAL_INC
  with assms after_data_op_overread[of program s "data_inc realloc_ok (mem s) (dp s)" s']
  show ?thesis by (simp add: step_def fetch_def)
next
  case INST_VAL_DEC
  with assms after_data_op_overread[of program s "data_dec realloc_ok (mem s) (dp s)" s']
  show ?thesis by (simp add: step_def fetch_def)
next
  case INST_VAL_ACCEPT
  show ?thesis
  proof (cases "stdin s")
    case Nil
    with INST_VAL_ACCEPT assms show ?thesis
      by (auto simp: step_def fetch_def advance_def)
  next
    case (Cons input_val rest)
    with INST_VAL_ACCEPT assms
      after_data_op_overread[of program "s\<lparr>stdin := rest\<rparr>"
        "data_set realloc_ok (mem s) (dp s) input_val" s']
    show ?thesis by (simp add: step_def fetch_def)
  qed
qed (use assms in \<open>auto simp: step_def fetch_def advance_def\<close>)

lemma after_data_op_no_fetch_fault:
  "after_data_op program s (data_inc realloc_ok d p) \<noteq> Inl FetchOutOfBounds"
  "after_data_op program s (data_dec realloc_ok d p) \<noteq> Inl FetchOutOfBounds"
  "after_data_op program s (data_set realloc_ok d p val) \<noteq> Inl FetchOutOfBounds"
  by (auto simp: after_data_op_def data_ops_no_fetch_fault split: sum.splits fault.splits)

lemma step_no_fetch_fault:
  assumes "ip s < length program"
  shows "step decode realloc_ok program past s \<noteq> Inl FetchOutOfBounds"
proof (cases "decode (program ! ip s)")
  case INST_JMP_FORWARD
  from jmp_forward_step[where s = s and program = program and decode = decode
      and realloc_ok = realloc_ok and past = past, OF assms this]
  show ?thesis by simp
next
  case INST_JMP_BACK
  from jmp_back_step[where s = s and program = program and decode = decode
      and realloc_ok = realloc_ok and past = past, OF assms this]
  show ?thesis by simp
qed (use assms in \<open>simp_all add: step_def fetch_def advance_def after_data_op_no_fetch_fault
       split: list.splits\<close>)

text \<open>
  C3 (fetches of the forward scan stay below \<^verbatim>\<open>program_size\<close>): this fails. On
  the one-instruction program \<^verbatim>\<open>[\<close> (Ichiglyph \<^verbatim>\<open>l1\<close>) with a fresh tape,
  the first iteration of the main loop enters the scan with \<open>ip = 0\<close>, the test
  \<^verbatim>\<open>ip == program_size\<close> is false, \<^verbatim>\<open>ip++\<close> gives 1 and the fetch reads
  \<^verbatim>\<open>program[1]\<close> of a program of size 1. Whatever unit is found there, the run
  then ends with \<open>ip = 2\<close>.
\<close>

theorem forward_scan_fetch_at_program_size:
  "fetch ''['' (0 + 1) = None \<and>
   jmp_forward_scan brainfuck_opcode_decode ''['' past 0 1 [] = Inr (1, [1]) \<and>
   brainfuck_main realloc_always ''['' past (Suc 0) [] =
     Finished \<lparr>ip = 2, dp = 0, mem = data_init, stdin = [], stdout = [], stderr = [],
               overread = [1]\<rparr> \<and>
   ichiglyph_main realloc_always ''l1'' past' (Suc 0) [] =
     Finished \<lparr>ip = 2, dp = 0, mem = data_init, stdin = [], stdout = [], stderr = [],
               overread = [1]\<rparr>"
proof -
  have bf: "matching_close brainfuck_opcode_decode ''['' 0 = None"
    by (simp add: matching_close_def)
  have ig: "matching_close ichiglyph_opcode_decode [(CHR ''l'', CHR ''1'')] 0 = None"
    by (simp add: matching_close_def)
  have "jmp_forward_scan brainfuck_opcode_decode ''['' past 0 1 [] = Inr (1, [1])"
    using jmp_forward_scan_matching[of 0 "''[''" brainfuck_opcode_decode past "[]"]
    by (simp add: bf)
  moreover have "step brainfuck_opcode_decode realloc_always ''['' past (engine_init []) =
      Inr \<lparr>ip = 2, dp = 0, mem = data_init, stdin = [], stdout = [], stderr = [],
           overread = [1]\<rparr>"
    using jmp_forward_step[where s = "engine_init []" and program = "''[''"
        and decode = brainfuck_opcode_decode and realloc_ok = realloc_always and past = past]
    by (simp add: engine_init_def brainfuck_opcode_decode_def bf data_get_init)
  moreover have "step ichiglyph_opcode_decode realloc_always (ichiglyph_program ''l1'') past'
        (engine_init []) =
      Inr \<lparr>ip = 2, dp = 0, mem = data_init, stdin = [], stdout = [], stderr = [],
           overread = [1]\<rparr>"
    using jmp_forward_step[where s = "engine_init []" and program = "ichiglyph_program ''l1''"
        and decode = ichiglyph_opcode_decode and realloc_ok = realloc_always and past = past']
    by (simp add: engine_init_def ichiglyph_opcode_decode_def ig data_get_init)
  ultimately show ?thesis
    by (simp add: brainfuck_main_def ichiglyph_main_def brainfuck_program_def fetch_def
        engine_init_def)
qed

section \<open>Moving the data pointer below 0\<close>

text \<open>
  The claim C4 says that \<^verbatim>\<open>INST_DP_DEC\<close> at \<open>dp = 0\<close> faults. The code has no
  such fault: the run of \<^verbatim>\<open><\<close> finishes like any other, with the data pointer
  at the largest \<^verbatim>\<open>size_t\<close>.
\<close>

theorem pointer_underflow_no_fault:
  "brainfuck_main realloc_always ''<'' (CHR 0x00) (Suc 0) [] =
     Finished \<lparr>ip = 1, dp = 18446744073709551615, mem = data_init,
               stdin = [], stdout = [], stderr = [], overread = []\<rparr>"
  by (simp add: engine_defs brainfuck_opcode_decode_def)

text \<open>
  C4, amended: when \<^verbatim>\<open>INST_DP_DEC\<close> executes with \<open>dp = 0\<close>, the data pointer
  wraps around to \<open>2 ^ 64 - 1\<close>, nothing else changes, no fault is raised and
  execution goes on with the next instruction.
\<close>

theorem pointer_underflow_wraps:
  assumes "ip s < length program" "decode (program ! ip s) = INST_DP_DEC" "dp s = 0"
  shows "step decode realloc_ok program past s =
           Inr (s\<lparr>ip := ip s + 1, dp := 18446744073709551615\<rparr>) \<and>
         unat (18446744073709551615 :: size_t) = 2 ^ 64 - 1"
  using assms by (simp add: step_def fetch_def advance_def)

theorem pointer_underflow_wraps_witness:
  "step ichiglyph_opcode_decode realloc_always (ichiglyph_program ''lI1l'') (CHR 0x00, CHR 0x00)
     (engine_init []) =
     Inr \<lparr>ip = 1, dp = 18446744073709551615, mem = data_init,
          stdin = [], stdout = [], stderr = [], overread = []\<rparr>"
proof -
  have "ip (engine_init []) < length (ichiglyph_program ''lI1l'')"
    "ichiglyph_opcode_decode (ichiglyph_program ''lI1l'' ! ip (engine_init [])) = INST_DP_DEC"
    "dp (engine_init []) = 0"
    by (simp_all add: engine_init_def ichiglyph_opcode_decode_def)
  from pointer_underflow_wraps[where s = "engine_init []"
      and program = "ichiglyph_program ''lI1l''" and decode = ichiglyph_opcode_decode
      and realloc_ok = realloc_always and past = "(CHR 0x00, CHR 0x00)", OF this]
  show ?thesis by (simp add: engine_init_def)
qed

section \<open>Unmatched brackets and the outcome of a run\<close>

text \<open>
  The claim C5 says that a run ended by a scan that found no matching bracket has an
  outcome of its own. In the code it has not: \<^verbatim>\<open>+]\<close> (the cell is 1, the scan
  finds no open and sets \<^verbatim>\<open>ip = program_size\<close>) and \<^verbatim>\<open>+\<close> (which runs to its
  end) leave the caller with the same exit status, output and diagnostics.
\<close>

theorem unmatched_bracket_outcome_not_distinct:
  "matching_open brainfuck_opcode_decode ''+]'' 1 = None \<and>
   outcome (brainfuck_main realloc_always ''+]'' (CHR 0x00) (Suc (Suc 0)) []) = Some (0, [], []) \<and>
   outcome (brainfuck_main realloc_always ''+'' (CHR 0x00) (Suc 0) []) = Some (0, [], [])"
  by (simp add: engine_defs brainfuck_opcode_decode_def data_inc_first_cell data_get_def
      outcome_def word_le_nat_alt jmp_back_scan.simps matching_open_def back_balance_def
      upt_rec)

text \<open>
  C5, amended: when a backward jump on a non-zero cell finds no matching open, the run
  ends after this instruction without a fault, and its outcome is the one of a run
  that ends normally in the same state: exit status 0, the output and the diagnostics
  written so far, and no mark of the unmatched bracket. (Nothing is said here about
  an unmatched forward jump.)
\<close>

theorem unmatched_back_jump_outcome:
  assumes "ip s < length program" "decode (program ! ip s) = INST_JMP_BACK"
    "data_get (mem s) (dp s) \<noteq> 0" "matching_open decode program (ip s) = None"
  shows "run decode realloc_ok program past (Suc n) s = Finished (s\<lparr>ip := length program + 1\<rparr>) \<and>
         outcome (run decode realloc_ok program past (Suc n) s) = Some (0, stdout s, stderr s) \<and>
         outcome (run decode realloc_ok program past (Suc n) s) = outcome (Finished s)"
proof -
  from jmp_back_step[where s = s and program = program and decode = decode
      and realloc_ok = realloc_ok and past = past, OF assms(1,2)] assms(3,4)
  have "step decode realloc_ok program past s = Inr (s\<lparr>ip := length program + 1\<rparr>)"
    by simp
  with assms(1)
  have "run decode realloc_ok program past (Suc n) s = Finished (s\<lparr>ip := length program + 1\<rparr>)"
    by (simp add: run_terminal)
  then show ?thesis by (simp add: outcome_def)
qed

theorem unmatched_back_jump_outcome_witness:
  "run brainfuck_opcode_decode realloc_always ''.]'' (CHR 0x00) (Suc 0)
     \<lparr>ip = 1, dp = 0, mem = \<lparr>data = [7], dsize = 1\<rparr>, stdin = [], stdout = [7], stderr = [], overread = []\<rparr> =
   Finished
     \<lparr>ip = 3, dp = 0, mem = \<lparr>data = [7], dsize = 1\<rparr>, stdin = [], stdout = [7], stderr = [], overread = []\<rparr> \<and>
   outcome (run brainfuck_opcode_decode realloc_always ''.]'' (CHR 0x00) (Suc 0)
     \<lparr>ip = 1, dp = 0, mem = \<lparr>data = [7], dsize = 1\<rparr>, stdin = [], stdout = [7], stderr = [], overread = []\<rparr>) =
   Some (0, [7], [])"
proof -
  let ?s = "\<lparr>ip = 1, dp = 0, mem = \<lparr>data = [7], dsize = 1\<rparr>,
             stdin = [], stdout = [7], stderr = [], overread = []\<rparr>"
  have "ip ?s < length ''.]''" "brainfuck_opcode_decode (''.]'' ! ip ?s) = INST_JMP_BACK"
    "data_get (mem ?s) (dp ?s) \<noteq> 0" "matching_open brainfuck_opcode_decode ''.]'' (ip ?s) = None"
    by (simp_all add: brainfuck_opcode_decode_def data_get_def matching_open_def
        back_balance_def upt_rec)
  from unmatched_back_jump_outcome[where s = ?s and program = "''.]''"
      and decode = brainfuck_opcode_decode and realloc_ok = realloc_always
      and past = "CHR 0x00" and n = 0, OF this]
  show ?thesis by (simp add: outcome_def)
qed

section \<open>Growth of the data memory\<close>

text \<open>
  C6 (growth to at least \<open>index + 1 + 32768\<close> zero-filled cells for every index,
  reads beyond the block give 0): the growth fails for the last 32769 indices of
  \<^verbatim>\<open>size_t\<close>, where \<^verbatim>\<open>dp + 1 + DATA_GRANULARITY\<close> wraps around. On
  \<^verbatim>\<open><+\<close> the data pointer is \<open>2 ^ 64 - 1\<close>, \<^verbatim>\<open>data_bound\<close> allocates 32768
  cells and returns 0, and \<^verbatim>\<open>data->data[dp]++\<close> is outside the block. Below
  these indices the claim holds (\<open>data_bound_grows\<close>, \<open>data_bound_get\<close>,
  \<open>data_get_beyond\<close>).
\<close>

theorem data_bound_size_wraps:
  "data_bound realloc_always data_init 18446744073709551615 =
     Inr \<lparr>data = replicate 32768 0, dsize = 32768\<rparr> \<and>
   data_inc realloc_always data_init 18446744073709551615 = Inl DataOutOfBounds \<and>
   brainfuck_main realloc_always ''<+'' past (Suc (Suc 0)) [] = Faulted DataOutOfBounds"
proof -
  have last: "(18446744073709551615 :: size_t) = - 1"
    by simp
  have "data_bound realloc_always data_init (- 1) =
      Inr \<lparr>data = replicate 32768 0, dsize = 32768\<rparr>"
    by (simp add: data_bound_def data_init_def DATA_GRANULARITY_def realloc_always_def)
  moreover have "brainfuck_main realloc_always ''<+'' past (Suc (Suc 0)) [] = Faulted DataOutOfBounds"
    by (simp add: engine_defs brainfuck_opcode_decode_def data_inc_last_index)
  ultimately show ?thesis
    unfolding last using data_inc_last_index by (simp add: data_init_def)
qed

section \<open>Cell arithmetic\<close>

text \<open>
  C7 (cells are unsigned 8-bit, modulo 256): whenever \<^verbatim>\<open>data_inc\<close> or
  \<^verbatim>\<open>data_dec\<close> returns 0, the cell read back is the old value plus or minus 1
  modulo 256; 255 goes to 0 and 0 goes to 255.
\<close>

theorem cell_arithmetic_mod_256:
  assumes "data_ok d"
  shows "(data_inc realloc_ok d p = Inr d' \<longrightarrow>
            data_get d' p = data_get d p + 1 \<and>
            unat (data_get d' p) = (unat (data_get d p) + 1) mod 256 \<and>
            (data_get d p = 255 \<longrightarrow> data_get d' p = 0)) \<and>
         (data_dec realloc_ok d p = Inr d'' \<longrightarrow>
            data_get d'' p = data_get d p - 1 \<and>
            unat (data_get d'' p) = (unat (data_get d p) + 255) mod 256 \<and>
            (data_get d p = 0 \<longrightarrow> data_get d'' p = 255))"
proof (intro conjI impI)
  assume inc: "data_inc realloc_ok d p = Inr d'"
  from data_inc_get[OF assms inc, of p]
  show 1: "data_get d' p = data_get d p + 1" by simp
  then show "unat (data_get d' p) = (unat (data_get d p) + 1) mod 256"
    by (simp add: unat_word_ariths)
  assume "data_get d p = 255"
  with 1 show "data_get d' p = 0" by simp
next
  assume dec: "data_dec realloc_ok d p = Inr d''"
  from data_dec_get[OF assms dec, of p]
  show 1: "data_get d'' p = data_get d p - 1" by simp
  have "data_get d p - 1 = data_get d p + 255" by simp
  with 1 show "unat (data_get d'' p) = (unat (data_get d p) + 255) mod 256"
    by (simp add: unat_word_ariths)
  assume "data_get d p = 0"
  with 1 show "data_get d'' p = 255" by simp
qed

theorem cell_arithmetic_mod_256_witness:
  "data_inc realloc_always \<lparr>data = [255, 0], dsize = 2\<rparr> 0 = Inr \<lparr>data = [0, 0], dsize = 2\<rparr> \<and>
   data_get \<lparr>data = [0, 0], dsize = 2\<rparr> 0 = 0 \<and>
   data_dec realloc_always \<lparr>data = [255, 0], dsize = 2\<rparr> 1 = Inr \<lparr>data = [255, 255], dsize = 2\<rparr> \<and>
   data_get \<lparr>data = [255, 255], dsize = 2\<rparr> 1 = 255"
proof -
  let ?d = "\<lparr>data = [255, 0], dsize = 2\<rparr>"
  have ok: "data_ok ?d" by (simp add: data_ok_def)
  have inc: "data_inc realloc_always ?d 0 = Inr \<lparr>data = [0, 0], dsize = 2\<rparr>"
    by (simp add: data_inc_def data_bound_def data_store_def)
  have dec: "data_dec realloc_always ?d 1 = Inr \<lparr>data = [255, 255], dsize = 2\<rparr>"
    by (simp add: data_dec_def data_bound_def data_store_def word_le_nat_alt)
  have get: "data_get ?d 0 = 255" "data_get ?d 1 = 0"
    by (simp_all add: data_get_def word_le_nat_alt)
  from cell_arithmetic_mod_256[OF ok, where realloc_ok = realloc_always and p = 0
         and d' = "\<lparr>data = [0, 0], dsize = 2\<rparr>"]
       cell_arithmetic_mod_256[OF ok, where realloc_ok = realloc_always and p = 1
         and d'' = "\<lparr>data = [255, 255], dsize = 2\<rparr>"]
  show ?thesis by (simp add: inc dec get)
qed

section \<open>The two encodings\<close>

text \<open>
  The claim C8 says that decoding what an encoder writes gives the instruction back
  for each of the 9 instruction kinds. It fails for \<^verbatim>\<open>INST_NOP\<close>, for which both
  encoders write nothing: the text decodes to the empty program.
\<close>

theorem nop_is_dropped:
  "map brainfuck_opcode_decode (brainfuck_program (brainfuck_encode INST_NOP)) \<noteq> [INST_NOP] \<and>
   map ichiglyph_opcode_decode (ichiglyph_program (ichiglyph_encode INST_NOP)) \<noteq> [INST_NOP]"
  by (simp add: brainfuck_program_def)

text \<open>
  C8, amended: for each of the 8 instructions other than \<^verbatim>\<open>INST_NOP\<close> and for
  both encodings, decoding the unit that the encoder writes gives the instruction
  back; for \<^verbatim>\<open>INST_NOP\<close> both encoders write the empty text.
\<close>

theorem decode_encode_round_trip:
  "(i \<noteq> INST_NOP \<longrightarrow>
      map brainfuck_opcode_decode (brainfuck_program (brainfuck_encode i)) = [i] \<and>
      map ichiglyph_opcode_decode (ichiglyph_program (ichiglyph_encode i)) = [i]) \<and>
   brainfuck_encode INST_NOP = [] \<and> ichiglyph_encode INST_NOP = []"
  using brainfuck_decode_encode[of i] ichiglyph_decode_encode[of i] by simp

theorem decode_encode_round_trip_witness:
  "map brainfuck_opcode_decode (brainfuck_program (brainfuck_encode INST_JMP_FORWARD)) =
     [INST_JMP_FORWARD] \<and>
   map ichiglyph_opcode_decode (ichiglyph_program (ichiglyph_encode INST_JMP_FORWARD)) =
     [INST_JMP_FORWARD] \<and>
   brainfuck_encode INST_JMP_FORWARD = ''['' \<and> ichiglyph_encode INST_JMP_FORWARD = ''l1''"
  using decode_encode_round_trip[of INST_JMP_FORWARD] by simp

section \<open>The two interpreters agree\<close>


section \<open>End of input\<close>

text \<open>
  C10 (end of input): when \<^verbatim>\<open>INST_VAL_ACCEPT\<close> executes and no input is left,
  the instruction changes nothing but \<open>ip\<close>, which goes past the end, and the run
  finishes there with exit status 0 and no diagnostic; the cell is not written. The
  program Output Input Output on the empty input writes the one byte 0 and finishes,
  in both encodings.
\<close>

theorem input_eof_terminates:
  assumes "ip s < length program" "decode (program ! ip s) = INST_VAL_ACCEPT" "stdin s = []"
  shows "step decode realloc_ok program past s = Inr (s\<lparr>ip := length program + 1\<rparr>) \<and>
         run decode realloc_ok program past (Suc n) s = Finished (s\<lparr>ip := length program + 1\<rparr>) \<and>
         outcome (run decode realloc_ok program past (Suc n) s) = Some (0, stdout s, stderr s) \<and>
         brainfuck_main realloc_ok ''.,.'' past_bf (Suc (Suc n)) [] =
           Finished \<lparr>ip = 4, dp = 0, mem = data_init, stdin = [], stdout = [0], stderr = [],
                     overread = []\<rparr> \<and>
         ichiglyph_main realloc_ok ''1l1I1l'' past_ig (Suc (Suc n)) [] =
           Finished \<lparr>ip = 4, dp = 0, mem = data_init, stdin = [], stdout = [0], stderr = [],
                     overread = []\<rparr>"
proof -
  from assms have 1: "step decode realloc_ok program past s = Inr (s\<lparr>ip := length program + 1\<rparr>)"
    by (simp add: step_def fetch_def advance_def)
  with assms(1)
  have 2: "run decode realloc_ok program past (Suc n) s = Finished (s\<lparr>ip := length program + 1\<rparr>)"
    by (simp add: run_terminal)
  have 3: "brainfuck_main realloc_ok ''.,.'' past_bf (Suc (Suc n)) [] =
      Finished \<lparr>ip = 4, dp = 0, mem = data_init, stdin = [], stdout = [0], stderr = [],
                     overread = []\<rparr>"
    by (simp add: engine_defs brainfuck_opcode_decode_def data_get_def run_terminal)
  have 4: "ichiglyph_main realloc_ok ''1l1I1l'' past_ig (Suc (Suc n)) [] =
      Finished \<lparr>ip = 4, dp = 0, mem = data_init, stdin = [], stdout = [0], stderr = [],
                     overread = []\<rparr>"
    by (simp add: engine_defs ichiglyph_opcode_decode_def data_get_def run_terminal)
  from 1 2 3 4 show ?thesis by (simp add: outcome_def)
qed

theorem input_eof_terminates_witness:
  "step brainfuck_opcode_decode realloc_always ''.,.'' (CHR 0x00)
     \<lparr>ip = 1, dp = 0, mem = data_init, stdin = [], stdout = [0], stderr = [],
      overread = []\<rparr> =
   Inr \<lparr>ip = 4, dp = 0, mem = data_init, stdin = [], stdout = [0], stderr = [],
        overread = []\<rparr> \<and>
   outcome (brainfuck_main realloc_always ''.,.'' (CHR 0x00) (Suc (Suc 0)) []) = Some (0, [0], [])"
proof -
  let ?s = "\<lparr>ip = 1, dp = 0, mem = data_init, stdin = [], stdout = [0], stderr = [],
             overread = []\<rparr>"
  have "ip ?s < length ''.,.''" "brainfuck_opcode_decode (''.,.'' ! ip ?s) = INST_VAL_ACCEPT"
    "stdin ?s = []"
    by (simp_all add: brainfuck_opcode_decode_def)
  from input_eof_terminates[where s = ?s and program = "''.,.''"
      and decode = brainfuck_opcode_decode and realloc_ok = realloc_always
      and past = "CHR 0x00" and past_bf = "CHR 0x00" and n = 0, OF this]
  show ?thesis by (simp add: outcome_def)
qed

end
